theory Spec2Isabelle
  imports Main "HOL-Library.Word"
begin

section \<open>Completion engine of the immediate mode (tools/swift/Completion.cpp)\<close>

text \<open>
  The development embeds \<^verbatim>\<open>Completion.cpp\<close>: the conversion of a completion result
  into its insertable string, the consumer that filters and stores results, the
  completion pass \<^verbatim>\<open>doCodeCompletion\<close>, and the class \<^verbatim>\<open>REPLCompletions\<close> with
  \<^verbatim>\<open>populate\<close>, \<^verbatim>\<open>getRoot\<close>, \<^verbatim>\<open>getPreviousStem\<close>, \<^verbatim>\<open>getNextStem\<close> and \<^verbatim>\<open>reset\<close>.

  The lexer, the parser, the type checker, the completion generator and the printer of
  a result are not part of the file; they are the fields of the record \<open>Services\<close>, and
  a theorem that is not about a concrete input holds for all of them.
\<close>

subsection \<open>Errors\<close>

text \<open>
  \<open>OutOfBoundsRead\<close>: a read through a pointer or an index that lies outside the
  object it belongs to (undefined behaviour in C++).
  \<open>AssertionFailure\<close>: a failed \<^verbatim>\<open>assert\<close>.
\<close>

datatype error = OutOfBoundsRead | AssertionFailure

subsection \<open>Completion results\<close>

text \<open>
  \<^verbatim>\<open>CodeCompletionString::Chunk::ChunkKind\<close>: the kinds that the \<^verbatim>\<open>switch\<close> of
  \<^verbatim>\<open>toInsertableString\<close> enumerates (the \<^verbatim>\<open>switch\<close> has no default case).
\<close>

datatype ChunkKind =
    Text | LeftParen | RightParen | LeftBracket | RightBracket | Dot | Comma
  | CallParameterName | CallParameterNameAnnotation | CallParameterColon
  | CallParameterColonAnnotation | CallParameterType | OptionalBegin
  | CallParameterBegin | TypeAnnotation

datatype Chunk = Chunk (getKind: ChunkKind) (getText: string)

text \<open>A \<^verbatim>\<open>CodeCompletionResult\<close> is read through the chunks of its completion string.\<close>

datatype CodeCompletionResult = CodeCompletionResult (getChunks: "Chunk list")

text \<open>
  The loop of \<^verbatim>\<open>toInsertableString\<close>, with \<open>Str\<close> the string built so far: a chunk of
  one of the first seven kinds appends its text, a chunk of any other kind returns.
\<close>

fun toInsertableString_loop :: "Chunk list \<Rightarrow> string \<Rightarrow> string" where
  "toInsertableString_loop [] Str = Str"
| "toInsertableString_loop (C # Cs) Str =
     (case getKind C of
        Text \<Rightarrow> toInsertableString_loop Cs (Str @ getText C)
      | LeftParen \<Rightarrow> toInsertableString_loop Cs (Str @ getText C)
      | RightParen \<Rightarrow> toInsertableString_loop Cs (Str @ getText C)
      | LeftBracket \<Rightarrow> toInsertableString_loop Cs (Str @ getText C)
      | RightBracket \<Rightarrow> toInsertableString_loop Cs (Str @ getText C)
      | Dot \<Rightarrow> toInsertableString_loop Cs (Str @ getText C)
      | Comma \<Rightarrow> toInsertableString_loop Cs (Str @ getText C)
      | CallParameterName \<Rightarrow> Str
      | CallParameterNameAnnotation \<Rightarrow> Str
      | CallParameterColon \<Rightarrow> Str
      | CallParameterColonAnnotation \<Rightarrow> Str
      | CallParameterType \<Rightarrow> Str
      | OptionalBegin \<Rightarrow> Str
      | CallParameterBegin \<Rightarrow> Str
      | TypeAnnotation \<Rightarrow> Str)"

definition toInsertableString :: "CodeCompletionResult \<Rightarrow> string" where
  "toInsertableString Result = toInsertableString_loop (getChunks Result) []"

subsection \<open>The completion session\<close>

datatype CompletionState = Invalid | Empty | Unique | CompletedRoot

text \<open>
  The members of \<^verbatim>\<open>REPLCompletions\<close> that the file reads and writes. \<open>Root\<close> is the
  optional cache of \<^verbatim>\<open>getRoot\<close>; \<open>CurrentCompletionIdx\<close> is a \<^verbatim>\<open>size_t\<close>, whose
  value \<open>- 1\<close> (all bits set, \<^verbatim>\<open>~size_t(0)\<close>) marks the unset cursor. The two vectors
  hold \<^verbatim>\<open>StringRef\<close>s: the consumer stores what \<^verbatim>\<open>CompletionContext.copyString\<close>
  returns, and the accessors return \<^verbatim>\<open>substr\<close> of an element as a \<^verbatim>\<open>StringRef\<close>. A
  stored string is therefore a pointer and a length: its bytes, and nothing after them.
\<close>

record REPLCompletions =
  State :: CompletionState
  Prefix :: string
  Root :: "string option"
  CurrentCompletionIdx :: "64 word"
  CompletionStrings :: "string list"
  CompletionInsertableStrings :: "string list"

text \<open>
  The constructor initialises \<open>State\<close> only; the strings and the vectors start empty,
  the cache unset, and \<open>CurrentCompletionIdx\<close> has whatever value \<open>idx0\<close> the memory
  holds.
\<close>

definition REPLCompletions_new :: "64 word \<Rightarrow> REPLCompletions" where
  "REPLCompletions_new idx0 =
     \<lparr>State = Invalid, Prefix = [], Root = None, CurrentCompletionIdx = idx0,
      CompletionStrings = [], CompletionInsertableStrings = []\<rparr>"

subsection \<open>The program state and the external services\<close>

text \<open>\<^verbatim>\<open>Decl*\<close>: a declaration or the null pointer.\<close>

datatype Decl = NullDecl | DeclPtr nat

text \<open>\<^verbatim>\<open>TranslationUnit::Kind\<close>: the file only asks whether it is \<^verbatim>\<open>REPL\<close>.\<close>

datatype TUKind = REPL | OtherKind

text \<open>
  What the file touches of a \<^verbatim>\<open>TranslationUnit\<close> and its \<^verbatim>\<open>ASTContext\<close>: the kind, the
  declarations, the consumers and the error flag of the diagnostics engine, and the
  buffers of the source manager.
\<close>

record TranslationUnit =
  Kind :: TUKind
  Decls :: "Decl list"
  DiagConsumers :: "nat list"
  HadAnyError :: bool
  SourceBuffers :: "string list"

datatype tok = tok_identifier | tok_keyword | tok_other

text \<open>A token: its kind, its text, and its location as an offset into its buffer.\<close>

datatype Token = Token (tokKind: tok) (tokText: string) (tokLoc: nat)

text \<open>
  The functions that \<^verbatim>\<open>Completion.cpp\<close> calls and does not define.
  \<^item> \<open>parseIntoTranslationUnit TU BufferID Offset PS\<close> parses one chunk: the new
    translation unit, the flag \<^verbatim>\<open>Done\<close> and the new persistent parser state.
  \<^item> \<open>performTypeChecking TU StartElem\<close>: the new translation unit.
  \<^item> \<open>performDelayedParsing TU PS Offset\<close>: the new translation unit and the batches of
    results that the completion callbacks hand to the consumer, in order.
  \<^item> \<open>tokenize Buffers BufferID\<close>: the tokens of a buffer of the source manager.
  \<^item> \<open>printResult Result\<close>: what \<^verbatim>\<open>Result->print\<close> writes.
\<close>

record Services =
  parseIntoTranslationUnit ::
    "TranslationUnit \<Rightarrow> nat \<Rightarrow> nat \<Rightarrow> nat \<Rightarrow> TranslationUnit \<times> bool \<times> nat"
  performTypeChecking :: "TranslationUnit \<Rightarrow> nat \<Rightarrow> TranslationUnit"
  performDelayedParsing ::
    "TranslationUnit \<Rightarrow> nat \<Rightarrow> nat \<Rightarrow> TranslationUnit \<times> CodeCompletionResult list list"
  tokenize :: "string list \<Rightarrow> nat \<Rightarrow> Token list"
  printResult :: "CodeCompletionResult \<Rightarrow> string"

subsection \<open>The consumer\<close>

text \<open>\<^verbatim>\<open>StringRef::startswith\<close>: long enough, and the leading bytes are equal.\<close>

definition startswith :: "string \<Rightarrow> string \<Rightarrow> bool" where
  "startswith s p = (length p \<le> length s \<and> take (length p) s = p)"

text \<open>
  \<^verbatim>\<open>REPLCodeCompletionConsumer::handleResults\<close>, on the session it was built with.
  \<^verbatim>\<open>std::string::substr\<close> is called with a position that \<open>startswith\<close> has shown to
  be within the string.
\<close>

fun handleResults ::
  "Services \<Rightarrow> CodeCompletionResult list \<Rightarrow> REPLCompletions \<Rightarrow> REPLCompletions" where
  "handleResults sv [] Completions = Completions"
| "handleResults sv (Result # Results) Completions =
     (let InsertableString = toInsertableString Result
      in if startswith InsertableString (Prefix Completions)
         then handleResults sv Results
                (Completions\<lparr>
                   CompletionStrings :=
                     CompletionStrings Completions @ [printResult sv Result],
                   CompletionInsertableStrings :=
                     CompletionInsertableStrings Completions
                       @ [drop (length (Prefix Completions)) InsertableString]\<rparr>)
         else handleResults sv Results Completions)"

text \<open>The consumer receives the batches of one pass one after the other.\<close>

fun handleBatches ::
  "Services \<Rightarrow> CodeCompletionResult list list \<Rightarrow> REPLCompletions \<Rightarrow> REPLCompletions" where
  "handleBatches sv [] Completions = Completions"
| "handleBatches sv (Results # Batches) Completions =
     handleBatches sv Batches (handleResults sv Results Completions)"

subsection \<open>One completion pass\<close>

text \<open>A value stored in an \<^verbatim>\<open>unsigned\<close> is reduced modulo \<open>2 ^ 32\<close>.\<close>

definition to_unsigned :: "nat \<Rightarrow> nat" where
  "to_unsigned n = n mod 2 ^ 32"

text \<open>\<^verbatim>\<open>std::vector::resize\<close> on the declarations: cut, or fill with null pointers.\<close>

definition resize :: "nat \<Rightarrow> Decl list \<Rightarrow> Decl list" where
  "resize n ds = take n ds @ replicate (n - length ds) NullDecl"

text \<open>
  The \<^verbatim>\<open>do ... while (!Done)\<close> loop of \<^verbatim>\<open>doCodeCompletion\<close>. Whether it ends is up to
  the parser, so the loop is a partial function and \<open>None\<close> stands for a loop that runs
  forever.
\<close>

partial_function (option) parseLoop ::
  "Services \<Rightarrow> nat \<Rightarrow> nat \<Rightarrow> TranslationUnit \<Rightarrow> nat \<Rightarrow> nat \<Rightarrow> (TranslationUnit \<times> nat) option"
where
  "parseLoop sv BufferID CodeCompletionOffset TU CurTUElem PersistentState =
     (case parseIntoTranslationUnit sv TU BufferID CodeCompletionOffset PersistentState of
        (TU1, Done, PersistentState1) \<Rightarrow>
          let TU2 = performTypeChecking sv TU1 CurTUElem
          in if Done then Some (TU2, PersistentState1)
             else parseLoop sv BufferID CodeCompletionOffset TU2
                    (to_unsigned (length (Decls TU2))) PersistentState1)"

declare parseLoop.simps [code]

text \<open>
  \<^verbatim>\<open>doCodeCompletion\<close>. The function does not mention the session: it hands the
  callbacks factory to \<^verbatim>\<open>performDelayedParsing\<close>, whose callbacks feed the consumer.
  The result is the translation unit, \<^verbatim>\<open>*BufferID\<close> and the batches that the consumer
  of the factory receives during the call. The persistent parser state starts as \<open>0\<close>.
\<close>

definition doCodeCompletion ::
  "Services \<Rightarrow> TranslationUnit \<Rightarrow> string
     \<Rightarrow> (TranslationUnit \<times> nat \<times> CodeCompletionResult list list) option" where
  "doCodeCompletion sv TU EnteredCode =
     (let DiagnosticConsumers = DiagConsumers TU;
          TU0 = TU\<lparr>DiagConsumers := []\<rparr>;
          AugmentedCode = EnteredCode @ [CHR 0x00];
          CodeCompletionOffset = to_unsigned (length AugmentedCode - 1);
          AugmentedCode = AugmentedCode @ '' #'';
          BufferID = length (SourceBuffers TU0);
          TU1 = TU0\<lparr>SourceBuffers := SourceBuffers TU0 @ [AugmentedCode]\<rparr>;
          OriginalDeclCount = to_unsigned (length (Decls TU1));
          CurTUElem = to_unsigned (length (Decls TU1))
      in case parseLoop sv BufferID CodeCompletionOffset TU1 CurTUElem 0 of
           None \<Rightarrow> None
         | Some (TU2, PersistentState) \<Rightarrow>
             (case performDelayedParsing sv TU2 PersistentState CodeCompletionOffset of
                (TU3, Batches) \<Rightarrow>
                  Some (TU3\<lparr>Decls := resize OriginalDeclCount (Decls TU3),
                             DiagConsumers := DiagConsumers TU3 @ DiagnosticConsumers,
                             HadAnyError := False\<rparr>,
                        BufferID, Batches)))"

subsection \<open>The operations of the session\<close>

definition isKeyword :: "Token \<Rightarrow> bool" where
  "isKeyword T = (tokKind T = tok_keyword)"

definition classify :: "REPLCompletions \<Rightarrow> REPLCompletions" where
  "classify Completions =
     (if CompletionInsertableStrings Completions = [] then Completions\<lparr>State := Empty\<rparr>
      else if length (CompletionInsertableStrings Completions) = 1
           then Completions\<lparr>State := Unique\<rparr>
           else Completions\<lparr>State := CompletedRoot\<rparr>)"

text \<open>
  \<^verbatim>\<open>REPLCompletions::populate\<close>. The consumer of the factory is the one built on this
  session, so the batches of a pass go through \<open>handleBatches\<close> on the session as it
  is during that pass. \<^verbatim>\<open>StringRef::substr(0, Offset)\<close> is \<open>take Offset\<close>.
  The result is \<open>None\<close> when a pass does not end, the assertion failure when the
  translation unit is not of the REPL kind, and the session and the translation unit
  otherwise.
\<close>

definition populate ::
  "Services \<Rightarrow> REPLCompletions \<Rightarrow> TranslationUnit \<Rightarrow> string
     \<Rightarrow> (error + REPLCompletions \<times> TranslationUnit) option" where
  "populate sv this TU EnteredCode =
     (let this0 = this\<lparr>Prefix := [], Root := None, CurrentCompletionIdx := - 1,
                       CompletionStrings := [], CompletionInsertableStrings := []\<rparr>
      in if Kind TU \<noteq> REPL then Some (Inl AssertionFailure)
         else
           case doCodeCompletion sv TU EnteredCode of
             None \<Rightarrow> None
           | Some (TU1, BufferID, Batches1) \<Rightarrow>
               let this1 = handleBatches sv Batches1 this0;
                   Tokens = tokenize sv (SourceBuffers TU1) BufferID
               in if Tokens \<noteq> []
                     \<and> (tokKind (last Tokens) = tok_identifier \<or> isKeyword (last Tokens))
                  then
                    let this2 = this1\<lparr>Prefix := tokText (last Tokens)\<rparr>;
                        Offset = to_unsigned (tokLoc (last Tokens))
                    in case doCodeCompletion sv TU1 (take Offset EnteredCode) of
                         None \<Rightarrow> None
                       | Some (TU2, BufferID2, Batches2) \<Rightarrow>
                           Some (Inr (classify (handleBatches sv Batches2 this2), TU2))
                  else Some (Inr (classify this1, TU1)))"

text \<open>
  \<^verbatim>\<open>std::mismatch(RootStr.begin(), RootStr.end(), S.begin())\<close>: the scan stops at the
  end of \<open>RootStr\<close> or at the first difference, and never asks where \<open>S\<close> ends. The
  result is the number of equal leading characters; the comparison that would read
  \<open>S\<close> at its length or beyond is the error.
\<close>

fun mismatch :: "string \<Rightarrow> string \<Rightarrow> error + nat" where
  "mismatch [] S = Inr 0"
| "mismatch (r # RootStr) [] = Inl OutOfBoundsRead"
| "mismatch (r # RootStr) (s # S) =
     (if r = s
      then (case mismatch RootStr S of Inl e \<Rightarrow> Inl e | Inr n \<Rightarrow> Inr (Suc n))
      else Inr 0)"

text \<open>The \<^verbatim>\<open>for\<close> loop of \<^verbatim>\<open>getRoot\<close>; \<^verbatim>\<open>RootStr.resize\<close> only ever shortens.\<close>

fun getRoot_loop :: "string \<Rightarrow> string list \<Rightarrow> error + string" where
  "getRoot_loop RootStr [] = Inr RootStr"
| "getRoot_loop RootStr (S # Ss) =
     (case mismatch RootStr S of
        Inl e \<Rightarrow> Inl e
      | Inr n \<Rightarrow> getRoot_loop (take n RootStr) Ss)"

text \<open>\<^verbatim>\<open>REPLCompletions::getRoot\<close>: the root and the session with its cache.\<close>

definition getRoot :: "REPLCompletions \<Rightarrow> error + string \<times> REPLCompletions" where
  "getRoot this =
     (case Root this of
        Some r \<Rightarrow> Inr (r, this)
      | None \<Rightarrow>
          (if CompletionInsertableStrings this = []
           then Inr ([], this\<lparr>Root := Some []\<rparr>)
           else
             (case getRoot_loop (CompletionInsertableStrings this ! 0)
                     (CompletionInsertableStrings this) of
                Inl e \<Rightarrow> Inl e
              | Inr RootStr \<Rightarrow> Inr (RootStr, this\<lparr>Root := Some RootStr\<rparr>))))"

text \<open>
  \<^verbatim>\<open>REPLCompletions::getPreviousStem\<close>. \<^verbatim>\<open>operator[]\<close> of the vector does not check
  its index; \<^verbatim>\<open>StringRef::substr\<close> clamps its start, as \<open>drop\<close> does.
\<close>

definition getPreviousStem :: "REPLCompletions \<Rightarrow> error + string \<times> REPLCompletions" where
  "getPreviousStem this =
     (if CurrentCompletionIdx this = - 1 \<or> CompletionInsertableStrings this = []
      then Inr ([], this)
      else if length (CompletionInsertableStrings this) \<le> unat (CurrentCompletionIdx this)
      then Inl OutOfBoundsRead
      else
        case getRoot this of
          Inl e \<Rightarrow> Inl e
        | Inr (r, this1) \<Rightarrow>
            Inr (drop (length r)
                   (CompletionInsertableStrings this ! unat (CurrentCompletionIdx this)),
                 this1))"

text \<open>\<^verbatim>\<open>REPLCompletions::getNextStem\<close>; the increment of the cursor wraps.\<close>

definition getNextStem :: "REPLCompletions \<Rightarrow> error + string \<times> REPLCompletions" where
  "getNextStem this =
     (if CompletionInsertableStrings this = [] then Inr ([], this)
      else
        let Idx1 = CurrentCompletionIdx this + 1;
            Idx2 = (if length (CompletionInsertableStrings this) \<le> unat Idx1 then 0 else Idx1);
            this1 = this\<lparr>CurrentCompletionIdx := Idx2\<rparr>
        in case getRoot this1 of
             Inl e \<Rightarrow> Inl e
           | Inr (r, this2) \<Rightarrow>
               Inr (drop (length r) (CompletionInsertableStrings this1 ! unat Idx2), this2))"

definition reset :: "REPLCompletions \<Rightarrow> REPLCompletions" where
  "reset this = this\<lparr>State := Invalid\<rparr>"

text \<open>A caller that asks for the next stem \<open>k\<close> times and collects the answers.\<close>

fun nextStems :: "nat \<Rightarrow> REPLCompletions \<Rightarrow> error + string list \<times> REPLCompletions" where
  "nextStems 0 this = Inr ([], this)"
| "nextStems (Suc k) this =
     (case getNextStem this of
        Inl e \<Rightarrow> Inl e
      | Inr (s, this1) \<Rightarrow>
          (case nextStems k this1 of
             Inl e \<Rightarrow> Inl e
           | Inr (ss, this2) \<Rightarrow> Inr (s # ss, this2)))"

subsection \<open>The words of the specification\<close>

text \<open>
  The specification calls the chunks of plain text, parentheses, brackets, dot and
  comma literal, and names the chunks at which a candidate is cut: those of a call
  parameter, the optional marker and the type annotation.
\<close>

definition isLiteralKind :: "ChunkKind \<Rightarrow> bool" where
  "isLiteralKind k =
     (k \<in> {Text, LeftParen, RightParen, LeftBracket, RightBracket, Dot, Comma})"

definition isPlaceholderKind :: "ChunkKind \<Rightarrow> bool" where
  "isPlaceholderKind k =
     (k \<in> {CallParameterName, CallParameterNameAnnotation, CallParameterColon,
            CallParameterColonAnnotation, CallParameterType, OptionalBegin,
            CallParameterBegin, TypeAnnotation})"

text \<open>
  What one batch adds to the two vectors under the prefix \<open>P\<close>, in the words of the
  specification: a result is kept only if its insertable text starts with the prefix;
  the display text is stored whole and the insertable text without its first
  \<open>length P\<close> characters.
\<close>

definition storedInsertable :: "string \<Rightarrow> CodeCompletionResult list \<Rightarrow> string list" where
  "storedInsertable P Results =
     map (\<lambda>R. drop (length P) (toInsertableString R))
       (filter (\<lambda>R. startswith (toInsertableString R) P) Results)"

definition storedDisplay ::
  "Services \<Rightarrow> string \<Rightarrow> CodeCompletionResult list \<Rightarrow> string list" where
  "storedDisplay sv P Results =
     map (printResult sv) (filter (\<lambda>R. startswith (toInsertableString R) P) Results)"

text \<open>
  A common prefix of the stored strings, and a longest one.
\<close>

definition commonPrefix :: "string \<Rightarrow> string list \<Rightarrow> bool" where
  "commonPrefix r xs = (\<forall>x \<in> set xs. startswith x r)"

definition longestCommonPrefix :: "string \<Rightarrow> string list \<Rightarrow> bool" where
  "longestCommonPrefix r xs =
     (commonPrefix r xs \<and> (\<forall>q. commonPrefix q xs \<longrightarrow> length q \<le> length r))"

subsection \<open>The sessions a caller can see\<close>

text \<open>
  The cache is valid when it is unset or holds what the loop of \<^verbatim>\<open>getRoot\<close> computes
  from the stored strings. The cursor is valid when it is of no use (no candidates, or
  unset) or points into the vector with the root cached.
\<close>

definition rootValid :: "REPLCompletions \<Rightarrow> bool" where
  "rootValid this =
     (case Root this of
        None \<Rightarrow> True
      | Some r \<Rightarrow>
          if CompletionInsertableStrings this = [] then r = []
          else getRoot_loop (CompletionInsertableStrings this ! 0)
                 (CompletionInsertableStrings this) = Inr r)"

definition cursorValid :: "REPLCompletions \<Rightarrow> bool" where
  "cursorValid this =
     (CompletionInsertableStrings this = [] \<or> CurrentCompletionIdx this = - 1
      \<or> (unat (CurrentCompletionIdx this) < length (CompletionInsertableStrings this)
          \<and> Root this \<noteq> None))"

text \<open>
  The sessions that a caller reaches from the constructor through the public
  operations, as long as none of them fails.
\<close>

inductive reachable :: "REPLCompletions \<Rightarrow> bool" where
  new: "reachable (REPLCompletions_new idx0)"
| populate:
    "reachable this \<Longrightarrow> populate sv this TU EnteredCode = Some (Inr (this', TU'))
       \<Longrightarrow> reachable this'"
| getRoot: "reachable this \<Longrightarrow> getRoot this = Inr (r, this') \<Longrightarrow> reachable this'"
| getPreviousStem:
    "reachable this \<Longrightarrow> getPreviousStem this = Inr (s, this') \<Longrightarrow> reachable this'"
| getNextStem:
    "reachable this \<Longrightarrow> getNextStem this = Inr (s, this') \<Longrightarrow> reachable this'"
| reset: "reachable this \<Longrightarrow> reachable (reset this)"

subsection \<open>Concrete inputs\<close>

text \<open>
  Services for the examples: the parser adds one declaration, raises the error flag and
  is done after one chunk; the generator delivers \<open>Batches1\<close> in the first pass on a
  translation unit without buffers and \<open>Batches2\<close> in the second; the lexer answers
  \<open>Tokens\<close>; the printer writes the texts of all chunks.
\<close>

definition ex_services ::
  "CodeCompletionResult list list \<Rightarrow> CodeCompletionResult list list \<Rightarrow> Token list
     \<Rightarrow> Services" where
  "ex_services Batches1 Batches2 Tokens =
     \<lparr>parseIntoTranslationUnit =
        (\<lambda>TU BufferID Offset PS.
           (TU\<lparr>Decls := Decls TU @ [DeclPtr 7], HadAnyError := True\<rparr>, True, PS)),
      performTypeChecking = (\<lambda>TU StartElem. TU),
      performDelayedParsing =
        (\<lambda>TU PS Offset.
           (TU, if length (SourceBuffers TU) = 1 then Batches1 else Batches2)),
      tokenize = (\<lambda>Buffers BufferID. Tokens),
      printResult = (\<lambda>R. concat (map getText (getChunks R)))\<rparr>"

definition ex_tu :: TranslationUnit where
  "ex_tu = \<lparr>Kind = REPL, Decls = [DeclPtr 1], DiagConsumers = [5], HadAnyError = False,
            SourceBuffers = []\<rparr>"

text \<open>A candidate that is a single text chunk.\<close>

definition textResult :: "string \<Rightarrow> CodeCompletionResult" where
  "textResult s = CodeCompletionResult [Chunk Text s]"

text \<open>
  The user has typed \<open>ab\<close>. The first pass, at the end of \<open>ab\<close>, delivers the candidate
  \<open>zeta\<close>; the only token is the identifier \<open>ab\<close> at offset 0; the second pass, on
  the empty source, delivers \<open>abc\<close> and \<open>zeta\<close>.
\<close>

definition ex_ab :: Services where
  "ex_ab = ex_services [[textResult ''zeta'']] [[textResult ''abc'', textResult ''zeta'']]
             [Token tok_identifier ''ab'' 0]"

text \<open>
  The user has typed \<open>x.fo\<close>. The first pass, at the end of \<open>fo\<close>, delivers the
  candidate \<open>bar\<close>; the last token is the identifier \<open>fo\<close> at offset 2; the second
  pass, on \<open>x.\<close>, delivers \<open>foo\<close> and \<open>bar\<close>.
\<close>

definition ex_xfo :: Services where
  "ex_xfo = ex_services [[textResult ''bar'']] [[textResult ''foo'', textResult ''bar'']]
              [Token tok_identifier ''x'' 0, Token tok_other ''.'' 1,
               Token tok_identifier ''fo'' 2]"

text \<open>
  The user has typed \<open>x.ap\<close> and the second pass, under the prefix \<open>ap\<close>, delivers
  \<open>appendValue\<close> and \<open>append\<close>.
\<close>

definition ex_append :: Services where
  "ex_append = ex_services [[]] [[textResult ''appendValue'', textResult ''append'']]
                 [Token tok_identifier ''x'' 0, Token tok_other ''.'' 1,
                  Token tok_identifier ''ap'' 2]"

text \<open>
  The user has typed \<open>x.\<close>; the last token is the dot, so there is one pass; it delivers
  \<open>abc\<close> and \<open>ab\<close>.
\<close>

definition ex_abc :: Services where
  "ex_abc = ex_services [[textResult ''abc'', textResult ''ab'']] []
              [Token tok_identifier ''x'' 0, Token tok_other ''.'' 1]"

text \<open>
  The user has typed \<open>let x = Str\<close>; the last token is the identifier \<open>Str\<close> at
  offset 8 and the second pass, on \<open>let x = \<close>, delivers \<open>String\<close> and
  \<open>StringProtocol\<close>.
\<close>

definition ex_str :: Services where
  "ex_str = ex_services [[]] [[textResult ''String'', textResult ''StringProtocol'']]
              [Token tok_keyword ''let'' 0, Token tok_identifier ''x'' 4,
               Token tok_other ''='' 6, Token tok_identifier ''Str'' 8]"

section \<open>Insertable strings\<close>

lemma isPlaceholderKind_iff: "isPlaceholderKind k = (\<not> isLiteralKind k)"
  by (cases k) (simp_all add: isPlaceholderKind_def isLiteralKind_def)

lemma toInsertableString_loop_eq:
  "toInsertableString_loop Cs Str =
     Str @ concat (map getText (takeWhile (\<lambda>C. isLiteralKind (getKind C)) Cs))"
proof (induction Cs arbitrary: Str)
  case Nil
  show ?case by simp
next
  case (Cons C Cs)
  show ?case
    by (cases "getKind C") (simp_all add: Cons.IH isLiteralKind_def)
qed

text \<open>
  Claim C5. The insertable string of a result is the concatenation of the texts of its
  leading literal chunks, that is of the chunks before the first placeholder chunk; the
  result with chunks Text "foo", CallParameterBegin, CallParameterName "x" has the
  insertable string "foo"; and the consumer that accepts it stores next to "foo" the
  string that the printer renders for the whole result.
\<close>

theorem toInsertableString_literal_prefix:
  "toInsertableString Result =
     concat (map getText (takeWhile (\<lambda>C. isLiteralKind (getKind C)) (getChunks Result)))
   \<and> takeWhile (\<lambda>C. isLiteralKind (getKind C)) (getChunks Result) =
       takeWhile (\<lambda>C. \<not> isPlaceholderKind (getKind C)) (getChunks Result)
   \<and> toInsertableString
        (CodeCompletionResult
           [Chunk Text ''foo'', Chunk CallParameterBegin [], Chunk CallParameterName ''x''])
       = ''foo''
   \<and> CompletionStrings
        (handleResults sv
           [CodeCompletionResult
              [Chunk Text ''foo'', Chunk CallParameterBegin [], Chunk CallParameterName ''x'']]
           (Completions\<lparr>Prefix := []\<rparr>))
       = CompletionStrings Completions
           @ [printResult sv
                (CodeCompletionResult
                   [Chunk Text ''foo'', Chunk CallParameterBegin [],
                    Chunk CallParameterName ''x''])]
   \<and> CompletionInsertableStrings
        (handleResults sv
           [CodeCompletionResult
              [Chunk Text ''foo'', Chunk CallParameterBegin [], Chunk CallParameterName ''x'']]
           (Completions\<lparr>Prefix := []\<rparr>))
       = CompletionInsertableStrings Completions @ [''foo'']"
proof -
  have a: "toInsertableString Result =
     concat (map getText (takeWhile (\<lambda>C. isLiteralKind (getKind C)) (getChunks Result)))"
    by (simp add: toInsertableString_def toInsertableString_loop_eq)
  have b: "takeWhile (\<lambda>C. isLiteralKind (getKind C)) (getChunks Result) =
       takeWhile (\<lambda>C. \<not> isPlaceholderKind (getKind C)) (getChunks Result)"
    by (simp add: isPlaceholderKind_iff)
  have c: "toInsertableString
        (CodeCompletionResult
           [Chunk Text ''foo'', Chunk CallParameterBegin [], Chunk CallParameterName ''x''])
       = ''foo''"
    by (simp add: toInsertableString_def)
  have d: "startswith ''foo'' []"
    by (simp add: startswith_def)
  from a b c d show ?thesis
    by (simp add: Let_def)
qed

section \<open>The consumer and the passes\<close>

lemma handleResults_eq:
  "handleResults sv Results C =
     C\<lparr>CompletionStrings := CompletionStrings C @ storedDisplay sv (Prefix C) Results,
       CompletionInsertableStrings :=
         CompletionInsertableStrings C @ storedInsertable (Prefix C) Results\<rparr>"
proof (induction Results arbitrary: C)
  case Nil
  show ?case by (simp add: storedDisplay_def storedInsertable_def)
next
  case (Cons R Rs)
  show ?case
    by (simp add: Cons.IH Let_def storedDisplay_def storedInsertable_def)
qed

lemma handleBatches_eq: "handleBatches sv Batches C = handleResults sv (concat Batches) C"
proof (induction Batches arbitrary: C)
  case Nil
  show ?case by simp
next
  case (Cons B Bs)
  show ?case
    by (simp add: Cons.IH handleResults_eq storedDisplay_def storedInsertable_def)
qed

lemma doCodeCompletion_restores:
  assumes "doCodeCompletion sv TU EnteredCode = Some (TU', BufferID, Batches)"
  shows "length (Decls TU') = to_unsigned (length (Decls TU))"
    and "\<exists>added. DiagConsumers TU' = added @ DiagConsumers TU"
    and "\<not> HadAnyError TU'"
  using assms
  by (auto simp: doCodeCompletion_def Let_def resize_def split: option.splits prod.splits)

lemma classify_other [simp]:
  "Prefix (classify C) = Prefix C"
  "Root (classify C) = Root C"
  "CurrentCompletionIdx (classify C) = CurrentCompletionIdx C"
  "CompletionStrings (classify C) = CompletionStrings C"
  "CompletionInsertableStrings (classify C) = CompletionInsertableStrings C"
  by (simp_all add: classify_def)

lemma populate_cases:
  assumes "populate sv this TU EnteredCode = Some (Inr (this', TU'))"
  obtains C where "this' = classify C"
  using assms
  by (auto simp: populate_def Let_def split: if_splits option.splits prod.splits)

lemma populate_Inr_cases:
  assumes "populate sv this TU EnteredCode = Some (Inr (this', TU'))"
  obtains
    (one_pass) BufferID Batches1 where
      "Kind TU = REPL"
      "doCodeCompletion sv TU EnteredCode = Some (TU', BufferID, Batches1)"
      "\<not> (tokenize sv (SourceBuffers TU') BufferID \<noteq> []
          \<and> (tokKind (last (tokenize sv (SourceBuffers TU') BufferID)) = tok_identifier
             \<or> isKeyword (last (tokenize sv (SourceBuffers TU') BufferID))))"
      "this' = classify (handleBatches sv Batches1
                 (this\<lparr>Prefix := [], Root := None, CurrentCompletionIdx := - 1,
                        CompletionStrings := [], CompletionInsertableStrings := []\<rparr>))"
  | (two_passes) TU1 BufferID Batches1 BufferID2 Batches2 where
      "Kind TU = REPL"
      "doCodeCompletion sv TU EnteredCode = Some (TU1, BufferID, Batches1)"
      "tokenize sv (SourceBuffers TU1) BufferID \<noteq> []"
      "tokKind (last (tokenize sv (SourceBuffers TU1) BufferID)) = tok_identifier
         \<or> isKeyword (last (tokenize sv (SourceBuffers TU1) BufferID))"
      "doCodeCompletion sv TU1
         (take (to_unsigned (tokLoc (last (tokenize sv (SourceBuffers TU1) BufferID))))
            EnteredCode) = Some (TU', BufferID2, Batches2)"
      "this' = classify (handleBatches sv Batches2
                 ((handleBatches sv Batches1
                    (this\<lparr>Prefix := [], Root := None, CurrentCompletionIdx := - 1,
                           CompletionStrings := [], CompletionInsertableStrings := []\<rparr>))
                  \<lparr>Prefix := tokText (last (tokenize sv (SourceBuffers TU1) BufferID))\<rparr>))"
proof -
  from assms have K: "Kind TU = REPL"
    by (simp add: populate_def Let_def split: if_splits)
  from assms K obtain TU1 BufferID Batches1
    where p1: "doCodeCompletion sv TU EnteredCode = Some (TU1, BufferID, Batches1)"
    by (auto simp: populate_def Let_def split: option.splits)
  show thesis
  proof (cases "tokenize sv (SourceBuffers TU1) BufferID \<noteq> []
          \<and> (tokKind (last (tokenize sv (SourceBuffers TU1) BufferID)) = tok_identifier
             \<or> isKeyword (last (tokenize sv (SourceBuffers TU1) BufferID)))")
    case False
    with assms K p1 show thesis
      by (intro one_pass [of BufferID Batches1]) (auto simp: populate_def Let_def)
  next
    case True
    with assms K p1 obtain BufferID2 Batches2 where
      p2: "doCodeCompletion sv TU1
         (take (to_unsigned (tokLoc (last (tokenize sv (SourceBuffers TU1) BufferID))))
            EnteredCode) = Some (TU', BufferID2, Batches2)"
      by (auto simp: populate_def Let_def split: option.splits)
    with assms K p1 True show thesis
      by (intro two_passes [of TU1 BufferID Batches1 BufferID2 Batches2])
         (auto simp: populate_def Let_def)
  qed
qed


lemma ex_ab_populate:
  "populate ex_ab (REPLCompletions_new 0) ex_tu ''ab'' =
     Some (Inr (\<lparr>State = CompletedRoot, Prefix = ''ab'', Root = None,
                  CurrentCompletionIdx = - 1,
                  CompletionStrings = [''zeta'', ''abc''],
                  CompletionInsertableStrings = [''zeta'', ''c'']\<rparr>,
                \<lparr>Kind = REPL, Decls = [DeclPtr 1], DiagConsumers = [5],
                  HadAnyError = False,
                  SourceBuffers = [''ab'' @ [CHR 0x00] @ '' #'', [CHR 0x00] @ '' #'']\<rparr>))"
  by (simp add: populate_def doCodeCompletion_def ex_ab_def ex_services_def ex_tu_def
      textResult_def REPLCompletions_new_def parseLoop.simps Let_def to_unsigned_def resize_def
      toInsertableString_def startswith_def classify_def isKeyword_def)

lemma startswith_Nil [simp]: "startswith s []"
  by (simp add: startswith_def)

lemma storedInsertable_Nil: "storedInsertable [] Results = map toInsertableString Results"
  by (simp add: storedInsertable_def)

lemma storedDisplay_Nil: "storedDisplay sv [] Results = map (printResult sv) Results"
  by (simp add: storedDisplay_def)

lemma startswith_append: "startswith s p \<Longrightarrow> p @ drop (length p) s = s"
  by (metis append_take_drop_id startswith_def)

lemma storedInsertable_sound:
  assumes "s \<in> set (storedInsertable P Results)"
  shows "\<exists>R \<in> set Results. toInsertableString R = P @ s \<and> startswith (toInsertableString R) P"
  using assms by (auto simp: storedInsertable_def startswith_append)

lemma ex_xfo_populate:
  "populate ex_xfo (REPLCompletions_new 0) ex_tu ''x.fo'' =
     Some (Inr (\<lparr>State = CompletedRoot, Prefix = ''fo'', Root = None,
                  CurrentCompletionIdx = - 1,
                  CompletionStrings = [''bar'', ''foo''],
                  CompletionInsertableStrings = [''bar'', ''o'']\<rparr>,
                \<lparr>Kind = REPL, Decls = [DeclPtr 1], DiagConsumers = [5],
                  HadAnyError = False,
                  SourceBuffers = [''x.fo'' @ [CHR 0x00] @ '' #'', ''x.'' @ [CHR 0x00] @ '' #'']\<rparr>))"
  by (simp add: populate_def doCodeCompletion_def ex_xfo_def ex_services_def ex_tu_def
      textResult_def REPLCompletions_new_def parseLoop.simps Let_def to_unsigned_def resize_def
      toInsertableString_def startswith_def classify_def isKeyword_def)

lemma ex_ab_pass1:
  "doCodeCompletion ex_ab ex_tu ''ab'' =
     Some (\<lparr>Kind = REPL, Decls = [DeclPtr 1], DiagConsumers = [5], HadAnyError = False,
             SourceBuffers = [''ab'' @ [CHR 0x00] @ '' #'']\<rparr>, 0, [[textResult ''zeta'']])"
  by (simp add: doCodeCompletion_def ex_ab_def ex_services_def ex_tu_def
      parseLoop.simps Let_def to_unsigned_def resize_def)

lemma ex_ab_pass2:
  "doCodeCompletion ex_ab
     \<lparr>Kind = REPL, Decls = [DeclPtr 1], DiagConsumers = [5], HadAnyError = False,
       SourceBuffers = [''ab'' @ [CHR 0x00] @ '' #'']\<rparr> [] =
     Some (\<lparr>Kind = REPL, Decls = [DeclPtr 1], DiagConsumers = [5], HadAnyError = False,
             SourceBuffers = [''ab'' @ [CHR 0x00] @ '' #'', [CHR 0x00] @ '' #'']\<rparr>, 1,
           [[textResult ''abc'', textResult ''zeta'']])"
  by (simp add: doCodeCompletion_def ex_ab_def ex_services_def ex_tu_def
      parseLoop.simps Let_def to_unsigned_def resize_def)

section \<open>The state after populate\<close>

text \<open>
  Claim C6. When populate returns, the state is Empty exactly when no candidate is
  stored, Unique exactly when one candidate is stored, and CompletedRoot exactly when
  two or more are stored.
\<close>

theorem populate_classifies:
  assumes "populate sv this TU EnteredCode = Some (Inr (this', TU'))"
  shows "(State this' = Empty) = (CompletionInsertableStrings this' = [])
       \<and> (State this' = Unique) = (length (CompletionInsertableStrings this') = 1)
       \<and> (State this' = CompletedRoot) = (2 \<le> length (CompletionInsertableStrings this'))"
proof -
  from assms obtain C where C: "this' = classify C"
    by (rule populate_cases)
  show ?thesis
    unfolding C by (cases "CompletionInsertableStrings C") (auto simp: classify_def Suc_le_eq)
qed



theorem populate_classifies_witness:
  "populate ex_ab (REPLCompletions_new 0) ex_tu ''ab'' =
     Some (Inr (\<lparr>State = CompletedRoot, Prefix = ''ab'', Root = None,
                  CurrentCompletionIdx = - 1,
                  CompletionStrings = [''zeta'', ''abc''],
                  CompletionInsertableStrings = [''zeta'', ''c'']\<rparr>,
                \<lparr>Kind = REPL, Decls = [DeclPtr 1], DiagConsumers = [5],
                  HadAnyError = False,
                  SourceBuffers = [''ab'' @ [CHR 0x00] @ '' #'', [CHR 0x00] @ '' #'']\<rparr>))
   \<and> (CompletedRoot = CompletedRoot) = (2 \<le> length [''zeta'', ''c''])"
  using populate_classifies [OF ex_ab_populate] ex_ab_populate by simp

text \<open>
  Claim C2. A call of populate that returns on a translation unit with fewer than
  \<open>2 ^ 32\<close> declarations (the count is kept in an \<^verbatim>\<open>unsigned\<close>) leaves as many
  declarations as it found, leaves every diagnostic consumer it found attached (after
  those that the passes themselves may have added), and leaves the error flag of the
  diagnostics engine cleared. The same holds after each pass (lemma
  \<open>doCodeCompletion_restores\<close>).
\<close>

theorem populate_restores_program_state:
  assumes "populate sv this TU EnteredCode = Some (Inr (this', TU'))"
    and "length (Decls TU) < 2 ^ 32"
  shows "length (Decls TU') = length (Decls TU)
       \<and> (\<exists>added. DiagConsumers TU' = added @ DiagConsumers TU)
       \<and> \<not> HadAnyError TU'"
  using assms(1)
proof (cases rule: populate_Inr_cases)
  case (one_pass BufferID Batches1)
  from doCodeCompletion_restores [OF one_pass(2)] assms(2) show ?thesis
    by (simp add: to_unsigned_def)
next
  case (two_passes TU1 BufferID Batches1 BufferID2 Batches2)
  have 1: "length (Decls TU1) = length (Decls TU)"
    using doCodeCompletion_restores(1) [OF two_passes(2)] assms(2)
    by (simp add: to_unsigned_def)
  obtain added1 where a1: "DiagConsumers TU1 = added1 @ DiagConsumers TU"
    using doCodeCompletion_restores(2) [OF two_passes(2)] by blast
  have 2: "length (Decls TU') = length (Decls TU)"
    using doCodeCompletion_restores(1) [OF two_passes(5)] 1 assms(2)
    by (simp add: to_unsigned_def)
  obtain added2 where a2: "DiagConsumers TU' = added2 @ DiagConsumers TU1"
    using doCodeCompletion_restores(2) [OF two_passes(5)] by blast
  from a1 a2 have "DiagConsumers TU' = (added2 @ added1) @ DiagConsumers TU"
    by simp
  then have 3: "\<exists>added. DiagConsumers TU' = added @ DiagConsumers TU"
    by blast
  from 2 3 doCodeCompletion_restores(3) [OF two_passes(5)] show ?thesis
    by simp
qed


theorem populate_restores_program_state_witness:
  "populate ex_ab (REPLCompletions_new 0) ex_tu ''ab'' =
     Some (Inr (\<lparr>State = CompletedRoot, Prefix = ''ab'', Root = None,
                  CurrentCompletionIdx = - 1,
                  CompletionStrings = [''zeta'', ''abc''],
                  CompletionInsertableStrings = [''zeta'', ''c'']\<rparr>,
                \<lparr>Kind = REPL, Decls = [DeclPtr 1], DiagConsumers = [5],
                  HadAnyError = False,
                  SourceBuffers = [''ab'' @ [CHR 0x00] @ '' #'', [CHR 0x00] @ '' #'']\<rparr>))
   \<and> length (Decls ex_tu) < 2 ^ 32
   \<and> length [DeclPtr 1] = length (Decls ex_tu)
   \<and> (\<exists>added. [5] = added @ DiagConsumers ex_tu)"
proof -
  have small: "length (Decls ex_tu) < 2 ^ 32"
    by (simp add: ex_tu_def)
  from populate_restores_program_state [OF ex_ab_populate small] ex_ab_populate small
  show ?thesis by simp
qed

section \<open>The two passes\<close>

text \<open>
  Claim C1, as stated, at a concrete input: the first pass on \<open>ab\<close> delivers \<open>zeta\<close>,
  the last token is the identifier \<open>ab\<close>, the second pass runs on the empty source and
  stores \<open>c\<close> (from \<open>abc\<close>); when populate returns the insertable strings are \<open>zeta\<close>
  and \<open>c\<close>, not the output of the second pass alone.
\<close>

theorem first_pass_candidates_are_stored:
  "doCodeCompletion ex_ab ex_tu ''ab'' =
     Some (\<lparr>Kind = REPL, Decls = [DeclPtr 1], DiagConsumers = [5], HadAnyError = False,
             SourceBuffers = [''ab'' @ [CHR 0x00] @ '' #'']\<rparr>, 0, [[textResult ''zeta'']])
   \<and> tokenize ex_ab [''ab'' @ [CHR 0x00] @ '' #''] 0 = [Token tok_identifier ''ab'' 0]
   \<and> doCodeCompletion ex_ab
        \<lparr>Kind = REPL, Decls = [DeclPtr 1], DiagConsumers = [5], HadAnyError = False,
          SourceBuffers = [''ab'' @ [CHR 0x00] @ '' #'']\<rparr> (take 0 ''ab'') =
       Some (\<lparr>Kind = REPL, Decls = [DeclPtr 1], DiagConsumers = [5], HadAnyError = False,
               SourceBuffers = [''ab'' @ [CHR 0x00] @ '' #'', [CHR 0x00] @ '' #'']\<rparr>, 1,
             [[textResult ''abc'', textResult ''zeta'']])
   \<and> storedInsertable ''ab'' [textResult ''abc'', textResult ''zeta''] = [''c'']
   \<and> populate ex_ab (REPLCompletions_new 0) ex_tu ''ab'' =
       Some (Inr (\<lparr>State = CompletedRoot, Prefix = ''ab'', Root = None,
                    CurrentCompletionIdx = - 1,
                    CompletionStrings = [''zeta'', ''abc''],
                    CompletionInsertableStrings = [''zeta'', ''c'']\<rparr>,
                  \<lparr>Kind = REPL, Decls = [DeclPtr 1], DiagConsumers = [5],
                    HadAnyError = False,
                    SourceBuffers = [''ab'' @ [CHR 0x00] @ '' #'', [CHR 0x00] @ '' #'']\<rparr>))
   \<and> [''zeta'', ''c''] \<noteq> [''c'']"
proof -
  have t: "tokenize ex_ab [''ab'' @ [CHR 0x00] @ '' #''] 0 = [Token tok_identifier ''ab'' 0]"
    by (simp add: ex_ab_def ex_services_def)
  have s: "storedInsertable ''ab'' [textResult ''abc'', textResult ''zeta''] = [''c'']"
    by (simp add: storedInsertable_def textResult_def toInsertableString_def startswith_def)
  from ex_ab_pass1 ex_ab_pass2 t s ex_ab_populate show ?thesis
    by simp
qed


text \<open>
  Claim C1, amended. When the first pass ends and the last token of its buffer is an
  identifier or a keyword (at an offset below \<open>2 ^ 32\<close>), and the pass on the source
  cut at that token's offset ends, populate returns with the token's text as prefix and
  with candidate lists that hold first every result of the first pass, whole (the
  prefix was empty during that pass), and then the results of the second pass that
  start with the prefix, their insertable texts without the prefix.
\<close>

theorem populate_two_passes:
  assumes "Kind TU = REPL"
    and "doCodeCompletion sv TU EnteredCode = Some (TU1, BufferID, Batches1)"
    and "tokenize sv (SourceBuffers TU1) BufferID = Tokens"
    and "Tokens \<noteq> []"
    and "tokKind (last Tokens) = tok_identifier \<or> isKeyword (last Tokens)"
    and "tokLoc (last Tokens) < 2 ^ 32"
    and "doCodeCompletion sv TU1 (take (tokLoc (last Tokens)) EnteredCode)
           = Some (TU2, BufferID2, Batches2)"
  shows "populate sv this TU EnteredCode =
           Some (Inr (classify
                        (this\<lparr>
                          Prefix := tokText (last Tokens),
                          Root := None,
                          CurrentCompletionIdx := - 1,
                          CompletionStrings :=
                            map (printResult sv) (concat Batches1)
                              @ storedDisplay sv (tokText (last Tokens)) (concat Batches2),
                          CompletionInsertableStrings :=
                            map toInsertableString (concat Batches1)
                              @ storedInsertable (tokText (last Tokens)) (concat Batches2)\<rparr>),
                      TU2))"
proof -
  have off: "to_unsigned (tokLoc (last Tokens)) = tokLoc (last Tokens)"
    using assms(6) by (simp add: to_unsigned_def)
  show ?thesis
    using assms(1-5,7)
    by (cases this)
       (simp add: populate_def Let_def off handleBatches_eq handleResults_eq
          storedInsertable_Nil storedDisplay_Nil)
qed


theorem populate_two_passes_witness:
  "populate ex_ab (REPLCompletions_new 0) ex_tu ''ab'' =
     Some (Inr (classify
                  ((REPLCompletions_new 0)\<lparr>
                     Prefix := ''ab'', Root := None, CurrentCompletionIdx := - 1,
                     CompletionStrings := [''zeta''] @ [''abc''],
                     CompletionInsertableStrings := [''zeta''] @ [''c'']\<rparr>),
                \<lparr>Kind = REPL, Decls = [DeclPtr 1], DiagConsumers = [5], HadAnyError = False,
                  SourceBuffers = [''ab'' @ [CHR 0x00] @ '' #'', [CHR 0x00] @ '' #'']\<rparr>))"
proof -
  have K: "Kind ex_tu = REPL" by (simp add: ex_tu_def)
  have t: "tokenize ex_ab (SourceBuffers \<lparr>Kind = REPL, Decls = [DeclPtr 1], DiagConsumers = [5], HadAnyError = False,
             SourceBuffers = [''ab'' @ [CHR 0x00] @ '' #'']\<rparr>) 0 = [Token tok_identifier ''ab'' 0]"
    by (simp add: ex_ab_def ex_services_def)
  have n: "[Token tok_identifier ''ab'' 0] \<noteq> []" by simp
  have k: "tokKind (last [Token tok_identifier ''ab'' 0]) = tok_identifier
           \<or> isKeyword (last [Token tok_identifier ''ab'' 0])" by simp
  have l: "tokLoc (last [Token tok_identifier ''ab'' 0]) < 2 ^ 32" by simp
  have p2: "doCodeCompletion ex_ab
     \<lparr>Kind = REPL, Decls = [DeclPtr 1], DiagConsumers = [5], HadAnyError = False,
       SourceBuffers = [''ab'' @ [CHR 0x00] @ '' #'']\<rparr> (take (tokLoc (last [Token tok_identifier ''ab'' 0])) ''ab'') =
     Some (\<lparr>Kind = REPL, Decls = [DeclPtr 1], DiagConsumers = [5], HadAnyError = False,
             SourceBuffers = [''ab'' @ [CHR 0x00] @ '' #'', [CHR 0x00] @ '' #'']\<rparr>, 1,
           [[textResult ''abc'', textResult ''zeta'']])"
    using ex_ab_pass2 by simp
  have e: "printResult ex_ab (textResult ''zeta'') = ''zeta''"
    "printResult ex_ab (textResult ''abc'') = ''abc''"
    by (simp_all add: ex_ab_def ex_services_def textResult_def)
  from populate_two_passes [OF K ex_ab_pass1 t n k l p2, of "REPLCompletions_new 0"]
  show ?thesis
    by (simp add: e storedInsertable_def storedDisplay_def textResult_def toInsertableString_def startswith_def ex_ab_def ex_services_def)
qed


text \<open>
  Claim C3, as stated, at a concrete input: after populate on \<open>x.fo\<close> the prefix is
  \<open>fo\<close> and the first stored insertable string is \<open>bar\<close>, the whole insertable text of
  the candidate \<open>bar\<close> of the first pass: that text does not start with \<open>fo\<close>, it was
  not stripped, and no delivered result has the insertable text \<open>fobar\<close>.
\<close>

theorem stored_entry_without_prefix:
  "populate ex_xfo (REPLCompletions_new 0) ex_tu ''x.fo'' =
     Some (Inr (\<lparr>State = CompletedRoot, Prefix = ''fo'', Root = None,
                  CurrentCompletionIdx = - 1,
                  CompletionStrings = [''bar'', ''foo''],
                  CompletionInsertableStrings = [''bar'', ''o'']\<rparr>,
                \<lparr>Kind = REPL, Decls = [DeclPtr 1], DiagConsumers = [5],
                  HadAnyError = False,
                  SourceBuffers = [''x.fo'' @ [CHR 0x00] @ '' #'', ''x.'' @ [CHR 0x00] @ '' #'']\<rparr>))
   \<and> toInsertableString (textResult ''bar'') = ''bar''
   \<and> \<not> startswith ''bar'' ''fo''
   \<and> drop (length ''fo'') ''bar'' \<noteq> ''bar''
   \<and> ''fo'' @ ''bar'' \<notin> set (map toInsertableString [textResult ''bar'', textResult ''foo'', textResult ''bar''])"
proof -
  have "toInsertableString (textResult ''bar'') = ''bar''"
    and "\<not> startswith ''bar'' ''fo''"
    and "drop (length ''fo'') ''bar'' \<noteq> ''bar''"
    and "''fo'' @ ''bar'' \<notin> set (map toInsertableString [textResult ''bar'', textResult ''foo'', textResult ''bar''])"
    by (simp_all add: textResult_def toInsertableString_def startswith_def)
  with ex_xfo_populate show ?thesis by simp
qed


text \<open>
  Claim C3, amended. After a call of populate that returns, the entries stored by the
  last pass of the call are the results of that pass whose insertable text starts with
  the prefix the session holds at return, filtered before they are stored, each stored
  without its first \<open>length prefix\<close> characters, so that prefix and stored text together
  are the insertable text of a delivered result. If that pass is a second pass, the
  results of the first pass come before them in the lists, whole.
\<close>

theorem populate_stored_entries:
  assumes "populate sv this TU EnteredCode = Some (Inr (this', TU'))"
  shows "(\<exists>BufferID Batches1.
            doCodeCompletion sv TU EnteredCode = Some (TU', BufferID, Batches1)
          \<and> Prefix this' = []
          \<and> CompletionInsertableStrings this' = storedInsertable (Prefix this') (concat Batches1)
          \<and> CompletionStrings this' = storedDisplay sv (Prefix this') (concat Batches1)
          \<and> (\<forall>s \<in> set (CompletionInsertableStrings this').
                \<exists>R \<in> set (concat Batches1). toInsertableString R = Prefix this' @ s))
       \<or> (\<exists>TU1 BufferID Batches1 BufferID2 Batches2.
            doCodeCompletion sv TU EnteredCode = Some (TU1, BufferID, Batches1)
          \<and> doCodeCompletion sv TU1
               (take (to_unsigned (tokLoc (last (tokenize sv (SourceBuffers TU1) BufferID))))
                  EnteredCode) = Some (TU', BufferID2, Batches2)
          \<and> Prefix this' = tokText (last (tokenize sv (SourceBuffers TU1) BufferID))
          \<and> CompletionInsertableStrings this' =
               map toInsertableString (concat Batches1)
                 @ storedInsertable (Prefix this') (concat Batches2)
          \<and> CompletionStrings this' =
               map (printResult sv) (concat Batches1)
                 @ storedDisplay sv (Prefix this') (concat Batches2)
          \<and> (\<forall>s \<in> set (storedInsertable (Prefix this') (concat Batches2)).
                \<exists>R \<in> set (concat Batches2). toInsertableString R = Prefix this' @ s))"
  using assms
proof (cases rule: populate_Inr_cases)
  case (one_pass BufferID Batches1)
  have P: "Prefix this' = []"
    by (simp add: one_pass(4) handleBatches_eq handleResults_eq)
  have I: "CompletionInsertableStrings this' = storedInsertable (Prefix this') (concat Batches1)"
    by (simp add: one_pass(4) handleBatches_eq handleResults_eq)
  have D: "CompletionStrings this' = storedDisplay sv (Prefix this') (concat Batches1)"
    by (simp add: one_pass(4) handleBatches_eq handleResults_eq)
  have S: "\<forall>s \<in> set (CompletionInsertableStrings this').
                \<exists>R \<in> set (concat Batches1). toInsertableString R = Prefix this' @ s"
    unfolding I using storedInsertable_sound by blast
  from one_pass(2) P I D S show ?thesis by blast
next
  case (two_passes TU1 BufferID Batches1 BufferID2 Batches2)
  have P: "Prefix this' = tokText (last (tokenize sv (SourceBuffers TU1) BufferID))"
    by (simp add: two_passes(6) handleBatches_eq handleResults_eq)
  have I: "CompletionInsertableStrings this' =
               map toInsertableString (concat Batches1)
                 @ storedInsertable (Prefix this') (concat Batches2)"
    by (simp add: two_passes(6) handleBatches_eq handleResults_eq storedInsertable_Nil)
  have D: "CompletionStrings this' =
               map (printResult sv) (concat Batches1)
                 @ storedDisplay sv (Prefix this') (concat Batches2)"
    by (simp add: two_passes(6) handleBatches_eq handleResults_eq storedDisplay_Nil)
  have S: "\<forall>s \<in> set (storedInsertable (Prefix this') (concat Batches2)).
                \<exists>R \<in> set (concat Batches2). toInsertableString R = Prefix this' @ s"
    using storedInsertable_sound by blast
  from two_passes(2) two_passes(5) P I D S show ?thesis by blast
qed



theorem populate_stored_entries_witness:
  "populate ex_xfo (REPLCompletions_new 0) ex_tu ''x.fo'' =
     Some (Inr (\<lparr>State = CompletedRoot, Prefix = ''fo'', Root = None,
                  CurrentCompletionIdx = - 1,
                  CompletionStrings = [''bar'', ''foo''],
                  CompletionInsertableStrings = [''bar'', ''o'']\<rparr>,
                \<lparr>Kind = REPL, Decls = [DeclPtr 1], DiagConsumers = [5],
                  HadAnyError = False,
                  SourceBuffers = [''x.fo'' @ [CHR 0x00] @ '' #'', ''x.'' @ [CHR 0x00] @ '' #'']\<rparr>))
   \<and> (\<exists>TU1 BufferID Batches1 BufferID2 Batches2 TU'.
        doCodeCompletion ex_xfo ex_tu ''x.fo'' = Some (TU1, BufferID, Batches1)
      \<and> doCodeCompletion ex_xfo TU1
               (take (to_unsigned (tokLoc (last (tokenize ex_xfo (SourceBuffers TU1) BufferID))))
                  ''x.fo'') = Some (TU', BufferID2, Batches2)
      \<and> [''bar'', ''o''] = map toInsertableString (concat Batches1)
                 @ storedInsertable ''fo'' (concat Batches2))"
proof -
  have ne: "''fo'' \<noteq> []" by simp
  from populate_stored_entries [OF ex_xfo_populate] ex_xfo_populate ne
  show ?thesis
    by (simp (no_asm_use)) blast
qed


section \<open>The common root\<close>

lemma mismatch_Inr:
  assumes "mismatch R S = Inr n"
  shows "n \<le> length R \<and> n \<le> length S \<and> take n R = take n S
         \<and> (n < length R \<longrightarrow> n < length S \<and> R ! n \<noteq> S ! n)"
  using assms
proof (induction R S arbitrary: n rule: mismatch.induct)
  case (1 S)
  then show ?case by simp
next
  case (2 r R)
  then show ?case by simp
next
  case (3 r R s S)
  show ?case
  proof (cases "r = s")
    case False
    with 3 show ?thesis by simp
  next
    case True
    with "3.prems" obtain m where m: "mismatch R S = Inr m" "n = Suc m"
      by (auto split: sum.splits)
    from "3.IH" [OF True m(1)] True m(2) show ?thesis by simp
  qed
qed

lemma mismatch_Inl:
  "(mismatch R S = Inl e) = (e = OutOfBoundsRead \<and> length S < length R \<and> take (length S) R = S)"
proof (induction R S rule: mismatch.induct)
  case (1 S)
  show ?case by simp
next
  case (2 r R)
  show ?case by auto
next
  case (3 r R s S)
  then show ?case by (auto split: sum.splits)
qed

lemma startswith_iff: "startswith s p = (\<exists>t. s = p @ t)"
proof
  assume "startswith s p"
  then have "s = p @ drop (length p) s"
    by (metis append_take_drop_id startswith_def)
  then show "\<exists>t. s = p @ t" ..
next
  assume "\<exists>t. s = p @ t"
  then show "startswith s p" by (auto simp: startswith_def)
qed

lemma startswith_take: "n \<le> length R \<Longrightarrow> startswith R (take n R)"
  by (simp add: startswith_def min_def)

lemma startswith_trans: "startswith a b \<Longrightarrow> startswith b c \<Longrightarrow> startswith a c"
  by (auto simp: startswith_iff)


lemma getRoot_loop_Inr:
  assumes "getRoot_loop R Ss = Inr r"
  shows "startswith R r \<and> commonPrefix r Ss
         \<and> (\<forall>q. startswith R q \<longrightarrow> commonPrefix q Ss \<longrightarrow> length q \<le> length r)"
  using assms
proof (induction Ss arbitrary: R)
  case Nil
  then show ?case
    by (auto simp: commonPrefix_def startswith_def)
next
  case (Cons S Ss)
  from Cons.prems obtain n where n: "mismatch R S = Inr n"
    and loop: "getRoot_loop (take n R) Ss = Inr r"
    by (auto split: sum.splits)
  note m = mismatch_Inr [OF n]
  note IH = Cons.IH [OF loop]
  from m have nR: "n \<le> length R" and nS: "n \<le> length S"
    and eq: "take n R = take n S"
    by blast+
  have R': "startswith R (take n R)"
    using nR by (rule startswith_take)
  have S': "startswith S (take n R)"
    unfolding eq using nS by (rule startswith_take)
  have 1: "startswith R r"
    using R' IH startswith_trans by blast
  have 2: "commonPrefix r (S # Ss)"
    using S' IH startswith_trans by (auto simp: commonPrefix_def)
  have 3: "length q \<le> length r"
    if q: "startswith R q" "commonPrefix q (S # Ss)" for q
  proof -
    from q have qR: "length q \<le> length R" "take (length q) R = q"
      and qS: "length q \<le> length S" "take (length q) S = q"
      by (auto simp: commonPrefix_def startswith_def)
    have "length q \<le> n"
    proof (rule ccontr)
      assume "\<not> length q \<le> n"
      then have lt: "n < length q" by simp
      with qR have "n < length R" by simp
      with m have ne: "R ! n \<noteq> S ! n" by simp
      from lt have "R ! n = take (length q) R ! n" "S ! n = take (length q) S ! n"
        by simp_all
      with qR(2) qS(2) ne show False by simp
    qed
    then have "take (length q) (take n R) = q"
      using qR(2) by (simp add: min_def)
    moreover have "length q \<le> length (take n R)"
      using \<open>length q \<le> n\<close> m by simp
    ultimately have "startswith (take n R) q"
      by (simp add: startswith_def)
    moreover from q(2) have "commonPrefix q Ss"
      by (simp add: commonPrefix_def)
    ultimately show ?thesis
      using IH by blast
  qed
  from 1 2 3 show ?case by blast
qed

lemma getRoot_cached: "Root this = Some r \<Longrightarrow> getRoot this = Inr (r, this)"
  by (simp add: getRoot_def)

lemma getRoot_Inr:
  assumes "getRoot this = Inr (r, this')"
  shows "this' = this\<lparr>Root := Some r\<rparr>"
    and "Root this = Some r
         \<or> (Root this = None
            \<and> (if CompletionInsertableStrings this = [] then r = []
                else getRoot_loop (CompletionInsertableStrings this ! 0)
                       (CompletionInsertableStrings this) = Inr r))"
  using assms
  by (auto simp: getRoot_def split: option.splits if_splits sum.splits)

lemma getRoot_longestCommonPrefix:
  assumes "Root this = None"
    and "getRoot this = Inr (r, this')"
  shows "(if CompletionInsertableStrings this = [] then r = []
          else longestCommonPrefix r (CompletionInsertableStrings this))
         \<and> this' = this\<lparr>Root := Some r\<rparr>
         \<and> getRoot this' = Inr (r, this')"
proof (cases "CompletionInsertableStrings this")
  case Nil
  with assms show ?thesis
    by (auto simp: getRoot_def)
next
  case (Cons x xs)
  with assms have loop: "getRoot_loop x (x # xs) = Inr r"
    by (auto simp: getRoot_def split: sum.splits)
  note L = getRoot_loop_Inr [OF loop]
  have "startswith x q" if "commonPrefix q (x # xs)" for q
    using that by (simp add: commonPrefix_def)
  with L have "longestCommonPrefix r (x # xs)"
    by (auto simp: longestCommonPrefix_def)
  moreover from assms(2) have "this' = this\<lparr>Root := Some r\<rparr>"
    by (rule getRoot_Inr)
  ultimately show ?thesis
    using Cons by (simp add: getRoot_def)
qed

lemma ex_append_populate:
  "populate ex_append (REPLCompletions_new 0) ex_tu ''x.ap'' =
     Some (Inr (\<lparr>State = CompletedRoot, Prefix = ''ap'', Root = None,
                  CurrentCompletionIdx = - 1,
                  CompletionStrings = [''appendValue'', ''append''],
                  CompletionInsertableStrings = [''pendValue'', ''pend'']\<rparr>,
                \<lparr>Kind = REPL, Decls = [DeclPtr 1], DiagConsumers = [5],
                  HadAnyError = False,
                  SourceBuffers = [''x.ap'' @ [CHR 0x00] @ '' #'', ''x.'' @ [CHR 0x00] @ '' #'']\<rparr>))"
  by (simp add: populate_def doCodeCompletion_def ex_append_def ex_services_def ex_tu_def
      textResult_def REPLCompletions_new_def parseLoop.simps Let_def to_unsigned_def resize_def
      toInsertableString_def startswith_def classify_def isKeyword_def)

lemma ex_abc_populate:
  "populate ex_abc (REPLCompletions_new 0) ex_tu ''x.'' =
     Some (Inr (\<lparr>State = CompletedRoot, Prefix = [], Root = None,
                  CurrentCompletionIdx = - 1,
                  CompletionStrings = [''abc'', ''ab''],
                  CompletionInsertableStrings = [''abc'', ''ab'']\<rparr>,
                \<lparr>Kind = REPL, Decls = [DeclPtr 1], DiagConsumers = [5],
                  HadAnyError = False,
                  SourceBuffers = [''x.'' @ [CHR 0x00] @ '' #'']\<rparr>))"
  by (simp add: populate_def doCodeCompletion_def ex_abc_def ex_services_def ex_tu_def
      textResult_def REPLCompletions_new_def parseLoop.simps Let_def to_unsigned_def resize_def
      toInsertableString_def startswith_def classify_def isKeyword_def)


text \<open>
  Claim C10, at the stored candidates \<open>abc\<close>, \<open>ab\<close>. The running root is \<open>abc\<close> when
  it is compared with \<open>ab\<close>: the first two characters agree, the root has a third, and
  the scan reads \<open>ab\<close> at index 2, past its end. The claim says that no comparison
  does.
\<close>

theorem mismatch_reads_past_shorter_string:
  "mismatch ''abc'' ''abc'' = Inr 3
   \<and> mismatch ''abc'' ''ab'' = Inl OutOfBoundsRead
   \<and> getRoot_loop ''abc'' [''abc'', ''ab''] = Inl OutOfBoundsRead
   \<and> getRoot \<lparr>State = CompletedRoot, Prefix = [], Root = None,
               CurrentCompletionIdx = - 1,
               CompletionStrings = [''abc'', ''ab''],
               CompletionInsertableStrings = [''abc'', ''ab'']\<rparr>
       = Inl OutOfBoundsRead"
  by (simp add: getRoot_def)


text \<open>
  Claim C4, at its own example. After populate under the prefix \<open>ap\<close> the stored
  candidates are \<open>pendValue\<close> and \<open>pend\<close>. The claim says that \<^verbatim>\<open>getRoot\<close> returns
  \<open>pend\<close>; the scan of \<open>pendValue\<close> against \<open>pend\<close> reads \<open>pend\<close> at index 4,
  past its end, and what \<^verbatim>\<open>getRoot\<close> returns depends on the byte found there. When no
  scan leaves its second string the root is the longest common prefix (lemma
  \<open>getRoot_longestCommonPrefix\<close>).
\<close>

theorem getRoot_pend_out_of_bounds:
  "populate ex_append (REPLCompletions_new 0) ex_tu ''x.ap'' =
     Some (Inr (\<lparr>State = CompletedRoot, Prefix = ''ap'', Root = None,
                  CurrentCompletionIdx = - 1,
                  CompletionStrings = [''appendValue'', ''append''],
                  CompletionInsertableStrings = [''pendValue'', ''pend'']\<rparr>,
                \<lparr>Kind = REPL, Decls = [DeclPtr 1], DiagConsumers = [5],
                  HadAnyError = False,
                  SourceBuffers = [''x.ap'' @ [CHR 0x00] @ '' #'', ''x.'' @ [CHR 0x00] @ '' #'']\<rparr>))
   \<and> mismatch ''pendValue'' ''pendValue'' = Inr 9
   \<and> mismatch ''pendValue'' ''pend'' = Inl OutOfBoundsRead
   \<and> getRoot \<lparr>State = CompletedRoot, Prefix = ''ap'', Root = None,
               CurrentCompletionIdx = - 1,
               CompletionStrings = [''appendValue'', ''append''],
               CompletionInsertableStrings = [''pendValue'', ''pend'']\<rparr>
       = Inl OutOfBoundsRead"
  using ex_append_populate by (simp add: getRoot_def)


section \<open>Stems and the cursor\<close>

lemma reset_frame:
  "State (reset this) = Invalid"
  "Prefix (reset this) = Prefix this"
  "Root (reset this) = Root this"
  "CurrentCompletionIdx (reset this) = CurrentCompletionIdx this"
  "CompletionStrings (reset this) = CompletionStrings this"
  "CompletionInsertableStrings (reset this) = CompletionInsertableStrings this"
  by (simp_all add: reset_def)

lemma rootValid_getRoot:
  assumes "rootValid this" "getRoot this = Inr (r, this')"
  shows "rootValid this' \<and> Root this' = Some r
         \<and> CompletionInsertableStrings this' = CompletionInsertableStrings this
         \<and> CurrentCompletionIdx this' = CurrentCompletionIdx this"
  using assms getRoot_Inr [OF assms(2)]
  by (auto simp: rootValid_def split: option.splits if_splits)

lemma populate_fresh:
  assumes "populate sv this TU EnteredCode = Some (Inr (this', TU'))"
  shows "Root this' = None \<and> CurrentCompletionIdx this' = - 1"
  using assms
  by (cases rule: populate_Inr_cases) (simp_all add: handleBatches_eq handleResults_eq)

lemma reachable_inv:
  assumes "reachable this"
  shows "rootValid this \<and> cursorValid this"
  using assms
proof (induction rule: reachable.induct)
  case (new idx0)
  show ?case
    by (simp add: rootValid_def cursorValid_def REPLCompletions_new_def)
next
  case (populate this sv TU EnteredCode this' TU')
  from populate_fresh [OF populate(2)] show ?case
    by (simp add: rootValid_def cursorValid_def)
next
  case (getRoot this r this')
  with rootValid_getRoot [of this r this'] show ?case
    by (auto simp: cursorValid_def)
next
  case (getPreviousStem this s this')
  show ?case
  proof (cases "CurrentCompletionIdx this = - 1 \<or> CompletionInsertableStrings this = []")
    case True
    with getPreviousStem show ?thesis
      by (auto simp: getPreviousStem_def)
  next
    case False
    with getPreviousStem(2) obtain r where "getRoot this = Inr (r, this')"
      by (auto simp: getPreviousStem_def split: if_splits sum.splits)
    with getPreviousStem(3) rootValid_getRoot [of this r this'] show ?thesis
      by (auto simp: cursorValid_def)
  qed
next
  case (getNextStem this s this')
  show ?case
  proof (cases "CompletionInsertableStrings this = []")
    case True
    with getNextStem show ?thesis
      by (auto simp: getNextStem_def)
  next
    case False
    define Idx2 where "Idx2 =
      (if length (CompletionInsertableStrings this) \<le> unat (CurrentCompletionIdx this + 1)
       then 0 else CurrentCompletionIdx this + 1)"
    define this1 where "this1 = this\<lparr>CurrentCompletionIdx := Idx2\<rparr>"
    from False getNextStem(2) obtain r where r: "getRoot this1 = Inr (r, this')"
      by (auto simp: getNextStem_def Let_def this1_def Idx2_def split: sum.splits)
    have v: "rootValid this1"
      using getNextStem(3) by (simp add: rootValid_def this1_def split: option.splits)
    have i: "unat Idx2 < length (CompletionInsertableStrings this)"
      using False by (simp add: Idx2_def)
    from rootValid_getRoot [OF v r] i show ?thesis
      by (simp add: cursorValid_def this1_def)
  qed
next
  case (reset this)
  then show ?case
    by (auto simp: rootValid_def cursorValid_def reset_def split: option.splits)
qed

lemma getRoot_loop_longestCommonPrefix:
  assumes "xs \<noteq> []"
    and "getRoot_loop (xs ! 0) xs = Inr r"
  shows "longestCommonPrefix r xs"
proof -
  note L = getRoot_loop_Inr [OF assms(2)]
  have "startswith (xs ! 0) q" if "commonPrefix q xs" for q
    using that assms(1) by (simp add: commonPrefix_def)
  with L show ?thesis
    by (auto simp: longestCommonPrefix_def)
qed

lemma reachable_root:
  assumes "reachable this"
    and "Root this = Some r"
    and "CompletionInsertableStrings this \<noteq> []"
  shows "longestCommonPrefix r (CompletionInsertableStrings this)"
proof -
  from reachable_inv [OF assms(1)] assms(2,3)
  have "getRoot_loop (CompletionInsertableStrings this ! 0)
          (CompletionInsertableStrings this) = Inr r"
    by (simp add: rootValid_def)
  with assms(3) show ?thesis
    by (rule getRoot_loop_longestCommonPrefix)
qed

lemma ex_str_populate:
  "populate ex_str (REPLCompletions_new 0) ex_tu ''let x = Str'' =
     Some (Inr (\<lparr>State = CompletedRoot, Prefix = ''Str'', Root = None,
                  CurrentCompletionIdx = - 1,
                  CompletionStrings = [''String'', ''StringProtocol''],
                  CompletionInsertableStrings = [''ing'', ''ingProtocol'']\<rparr>,
                \<lparr>Kind = REPL, Decls = [DeclPtr 1], DiagConsumers = [5],
                  HadAnyError = False,
                  SourceBuffers = [''let x = Str'' @ [CHR 0x00] @ '' #'',
                                   ''let x = '' @ [CHR 0x00] @ '' #'']\<rparr>))"
  by (simp add: populate_def doCodeCompletion_def ex_str_def ex_services_def ex_tu_def
      textResult_def REPLCompletions_new_def parseLoop.simps Let_def to_unsigned_def resize_def
      toInsertableString_def startswith_def classify_def isKeyword_def)

lemma ex_str_getNextStem1:
  "getNextStem \<lparr>State = CompletedRoot, Prefix = ''Str'', Root = None,
                 CurrentCompletionIdx = - 1,
                 CompletionStrings = [''String'', ''StringProtocol''],
                 CompletionInsertableStrings = [''ing'', ''ingProtocol'']\<rparr>
   = Inr ([], \<lparr>State = CompletedRoot, Prefix = ''Str'', Root = Some ''ing'',
                 CurrentCompletionIdx = 0,
                 CompletionStrings = [''String'', ''StringProtocol''],
                 CompletionInsertableStrings = [''ing'', ''ingProtocol'']\<rparr>)"
  by (simp add: getNextStem_def getRoot_def Let_def)

lemma ex_str_getNextStem2:
  "getNextStem \<lparr>State = CompletedRoot, Prefix = ''Str'', Root = Some ''ing'',
                 CurrentCompletionIdx = 0,
                 CompletionStrings = [''String'', ''StringProtocol''],
                 CompletionInsertableStrings = [''ing'', ''ingProtocol'']\<rparr>
   = Inr (''Protocol'', \<lparr>State = CompletedRoot, Prefix = ''Str'', Root = Some ''ing'',
                 CurrentCompletionIdx = 1,
                 CompletionStrings = [''String'', ''StringProtocol''],
                 CompletionInsertableStrings = [''ing'', ''ingProtocol'']\<rparr>)"
  by (simp add: getNextStem_def getRoot_def Let_def)


text \<open>
  Claim C8. In every session that a caller can reach, \<^verbatim>\<open>getPreviousStem\<close> returns the
  empty string and leaves the session as it is when the cursor is unset or there is no
  candidate; otherwise the root is cached and is the longest common prefix of the
  stored insertable strings, the cursor points into the vector, and the call returns
  the stem of the candidate at the cursor, that is the candidate without the first
  \<open>length root\<close> characters, and leaves the session, the cursor included, as it is.
\<close>

theorem getPreviousStem_rereads:
  assumes "reachable this"
  shows "(if CurrentCompletionIdx this = - 1 \<or> CompletionInsertableStrings this = []
          then getPreviousStem this = Inr ([], this)
          else (\<exists>r. getRoot this = Inr (r, this)
                  \<and> longestCommonPrefix r (CompletionInsertableStrings this)
                  \<and> unat (CurrentCompletionIdx this) < length (CompletionInsertableStrings this)
                  \<and> getPreviousStem this =
                      Inr (drop (length r)
                             (CompletionInsertableStrings this
                                ! unat (CurrentCompletionIdx this)),
                           this)))"
proof (cases "CurrentCompletionIdx this = - 1 \<or> CompletionInsertableStrings this = []")
  case True
  then show ?thesis
    by (auto simp: getPreviousStem_def)
next
  case False
  from reachable_inv [OF assms] False
  obtain r where r: "Root this = Some r"
    and i: "unat (CurrentCompletionIdx this) < length (CompletionInsertableStrings this)"
    by (auto simp: cursorValid_def)
  from r have g: "getRoot this = Inr (r, this)"
    by (rule getRoot_cached)
  from False have ne: "CompletionInsertableStrings this \<noteq> []"
    by simp
  have l: "longestCommonPrefix r (CompletionInsertableStrings this)"
    using assms r ne by (rule reachable_root)
  from False g i l show ?thesis
    by (simp add: getPreviousStem_def)
qed


theorem getPreviousStem_rereads_witness:
  "reachable \<lparr>State = CompletedRoot, Prefix = ''Str'', Root = Some ''ing'',
                 CurrentCompletionIdx = 1,
                 CompletionStrings = [''String'', ''StringProtocol''],
                 CompletionInsertableStrings = [''ing'', ''ingProtocol'']\<rparr>
   \<and> longestCommonPrefix ''ing'' [''ing'', ''ingProtocol'']
   \<and> getPreviousStem \<lparr>State = CompletedRoot, Prefix = ''Str'', Root = Some ''ing'',
                 CurrentCompletionIdx = 1,
                 CompletionStrings = [''String'', ''StringProtocol''],
                 CompletionInsertableStrings = [''ing'', ''ingProtocol'']\<rparr>
       = Inr (''Protocol'', \<lparr>State = CompletedRoot, Prefix = ''Str'', Root = Some ''ing'',
                 CurrentCompletionIdx = 1,
                 CompletionStrings = [''String'', ''StringProtocol''],
                 CompletionInsertableStrings = [''ing'', ''ingProtocol'']\<rparr>)"
proof -
  have r: "reachable \<lparr>State = CompletedRoot, Prefix = ''Str'', Root = Some ''ing'',
                 CurrentCompletionIdx = 1,
                 CompletionStrings = [''String'', ''StringProtocol''],
                 CompletionInsertableStrings = [''ing'', ''ingProtocol'']\<rparr>"
    by (rule reachable.getNextStem
          [OF reachable.getNextStem
                [OF reachable.populate [OF reachable.new ex_str_populate] ex_str_getNextStem1]
              ex_str_getNextStem2])
  from getPreviousStem_rereads [OF r] r show ?thesis
    by (simp add: getRoot_def)
qed


lemma getNextStem_empty:
  "CompletionInsertableStrings this = [] \<Longrightarrow> getNextStem this = Inr ([], this)"
  by (simp add: getNextStem_def)

lemma getNextStem_first:
  assumes "CompletionInsertableStrings this \<noteq> []"
    and "CurrentCompletionIdx this = - 1"
    and "Root this = None"
    and "getRoot_loop (CompletionInsertableStrings this ! 0) (CompletionInsertableStrings this)
           = Inr r"
  shows "getNextStem this =
           Inr (drop (length r) (CompletionInsertableStrings this ! 0),
                this\<lparr>CurrentCompletionIdx := 0, Root := Some r\<rparr>)"
  using assms by (simp add: getNextStem_def getRoot_def Let_def)

lemma getNextStem_next:
  assumes "Root this = Some r"
    and "CurrentCompletionIdx this = of_nat j"
    and "j < length (CompletionInsertableStrings this)"
    and "length (CompletionInsertableStrings this) < 2 ^ 64"
  shows "getNextStem this =
           Inr (drop (length r)
                  (CompletionInsertableStrings this
                     ! (Suc j mod length (CompletionInsertableStrings this))),
                this\<lparr>CurrentCompletionIdx :=
                       of_nat (Suc j mod length (CompletionInsertableStrings this))\<rparr>)"
proof -
  let ?N = "length (CompletionInsertableStrings this)"
  define w :: "64 word" where "w = of_nat j + 1"
  have idx1: "CurrentCompletionIdx this + 1 = w"
    by (simp add: assms(2) w_def)
  have wj: "of_nat (Suc j) = w"
    by (simp add: w_def)
  from assms(3,4) have small: "Suc j < 2 ^ 64" by simp
  have "unat (of_nat (Suc j) :: 64 word) = Suc j mod 2 ^ 64"
    by (simp only: unat_of_nat) simp
  with small have uw: "unat w = Suc j"
    by (simp only: wj) simp
  have ne: "CompletionInsertableStrings this \<noteq> []"
    using assms(3) by auto
  show ?thesis
  proof (cases "?N \<le> Suc j")
    case True
    with assms(3) have "Suc j = ?N" by simp
    then have m: "Suc j mod ?N = 0" by simp
    show ?thesis
      unfolding getNextStem_def Let_def idx1 m
      using True ne assms(1) uw by (simp add: getRoot_def)
  next
    case False
    then have m: "Suc j mod ?N = Suc j" by simp
    show ?thesis
      unfolding getNextStem_def Let_def idx1 m wj
      using False ne assms(1) uw by (simp add: getRoot_def)
  qed
qed

lemma nextStems_run:
  assumes "Root this = Some r"
    and "CurrentCompletionIdx this = of_nat j"
    and "j + k < length (CompletionInsertableStrings this)"
    and "length (CompletionInsertableStrings this) < 2 ^ 64"
  shows "nextStems k this =
           Inr (map (\<lambda>i. drop (length r) (CompletionInsertableStrings this ! i))
                  [Suc j ..< Suc j + k],
                this\<lparr>CurrentCompletionIdx := of_nat (j + k)\<rparr>)"
  using assms
proof (induction k arbitrary: j this)
  case 0
  then show ?case by simp
next
  case (Suc k)
  let ?N = "length (CompletionInsertableStrings this)"
  let ?this1 = "this\<lparr>CurrentCompletionIdx := of_nat (Suc j)\<rparr>"
  from Suc.prems have j: "j < ?N" and m: "Suc j mod ?N = Suc j"
    by simp_all
  have step: "getNextStem this =
      Inr (drop (length r) (CompletionInsertableStrings this ! Suc j), ?this1)"
    using getNextStem_next [OF Suc.prems(1,2) j Suc.prems(4)] m by simp
  have rest: "nextStems k ?this1 =
      Inr (map (\<lambda>i. drop (length r) (CompletionInsertableStrings ?this1 ! i))
             [Suc (Suc j) ..< Suc (Suc j) + k],
           ?this1\<lparr>CurrentCompletionIdx := of_nat (Suc j + k)\<rparr>)"
    using Suc.prems by (intro Suc.IH) simp_all
  have l: "[Suc j ..< Suc j + Suc k] = Suc j # [Suc (Suc j) ..< Suc (Suc j) + k]"
    by (simp add: upt_conv_Cons)
  show ?case
    by (simp only: nextStems.simps step sum.case prod.case rest l) simp
qed

lemma getNextStem_cycle:
  assumes "CompletionInsertableStrings this \<noteq> []"
    and "length (CompletionInsertableStrings this) < 2 ^ 64"
    and "CurrentCompletionIdx this = - 1"
    and "Root this = None"
    and "getRoot_loop (CompletionInsertableStrings this ! 0) (CompletionInsertableStrings this)
           = Inr r"
  shows "nextStems (length (CompletionInsertableStrings this)) this =
           Inr (map (drop (length r)) (CompletionInsertableStrings this),
                this\<lparr>CurrentCompletionIdx :=
                       of_nat (length (CompletionInsertableStrings this) - 1),
                     Root := Some r\<rparr>)"
    and "getNextStem
           (this\<lparr>CurrentCompletionIdx :=
                   of_nat (length (CompletionInsertableStrings this) - 1),
                 Root := Some r\<rparr>) =
           Inr (drop (length r) (CompletionInsertableStrings this ! 0),
                this\<lparr>CurrentCompletionIdx := 0, Root := Some r\<rparr>)"
proof -
  let ?xs = "CompletionInsertableStrings this"
  let ?N = "length ?xs"
  let ?this1 = "this\<lparr>CurrentCompletionIdx := 0, Root := Some r\<rparr>"
  from assms(1) obtain k where k: "?N = Suc k"
    by (cases ?xs) auto
  have first: "getNextStem this = Inr (drop (length r) (?xs ! 0), ?this1)"
    using assms(1,3,4,5) by (rule getNextStem_first)
  have run: "nextStems k ?this1 =
      Inr (map (\<lambda>i. drop (length r) (CompletionInsertableStrings ?this1 ! i))
             [Suc 0 ..< Suc 0 + k],
           ?this1\<lparr>CurrentCompletionIdx := of_nat (0 + k)\<rparr>)"
    using assms(2) k by (intro nextStems_run) simp_all
  have "map (drop (length r)) ?xs = map (\<lambda>i. drop (length r) (?xs ! i)) [0 ..< ?N]"
    by (rule nth_equalityI) simp_all
  also have "\<dots> = drop (length r) (?xs ! 0)
                 # map (\<lambda>i. drop (length r) (?xs ! i)) [Suc 0 ..< Suc 0 + k]"
    by (simp add: k upt_conv_Cons del: upt_Suc)
  finally have all: "map (drop (length r)) ?xs =
      drop (length r) (?xs ! 0) # map (\<lambda>i. drop (length r) (?xs ! i)) [Suc 0 ..< Suc 0 + k]" .
  show "nextStems ?N this =
           Inr (map (drop (length r)) ?xs,
                this\<lparr>CurrentCompletionIdx := of_nat (?N - 1), Root := Some r\<rparr>)"
    by (simp only: k nextStems.simps first sum.case prod.case run all) (simp add: k)
  have "getNextStem (this\<lparr>CurrentCompletionIdx := of_nat k, Root := Some r\<rparr>) =
      Inr (drop (length r) (?xs ! (Suc k mod ?N)),
           this\<lparr>CurrentCompletionIdx := of_nat k, Root := Some r\<rparr>
               \<lparr>CurrentCompletionIdx := of_nat (Suc k mod ?N)\<rparr>)"
    using getNextStem_next [of "this\<lparr>CurrentCompletionIdx := of_nat k, Root := Some r\<rparr>" r k]
      assms(2) k by simp
  then show "getNextStem
           (this\<lparr>CurrentCompletionIdx := of_nat (?N - 1), Root := Some r\<rparr>) =
           Inr (drop (length r) (?xs ! 0), ?this1)"
    by (simp add: k)
qed


text \<open>
  Claim C7, after a populate that stores the two candidates \<open>abc\<close> and \<open>ab\<close>. The
  claim says that the first \<^verbatim>\<open>getNextStem\<close> returns the stem of \<open>abc\<close>; the call computes
  the root first, and that scan reads \<open>ab\<close> past its end. Where the scans stay inside
  their strings, \<open>N\<close> calls return the \<open>N\<close> stems in storage order and the next call
  returns the first stem again (lemma \<open>getNextStem_cycle\<close>).
\<close>

theorem getNextStem_out_of_bounds:
  "populate ex_abc (REPLCompletions_new 0) ex_tu ''x.'' =
     Some (Inr (\<lparr>State = CompletedRoot, Prefix = [], Root = None,
                  CurrentCompletionIdx = - 1,
                  CompletionStrings = [''abc'', ''ab''],
                  CompletionInsertableStrings = [''abc'', ''ab'']\<rparr>,
                \<lparr>Kind = REPL, Decls = [DeclPtr 1], DiagConsumers = [5],
                  HadAnyError = False,
                  SourceBuffers = [''x.'' @ [CHR 0x00] @ '' #'']\<rparr>))
   \<and> getNextStem \<lparr>State = CompletedRoot, Prefix = [], Root = None,
                   CurrentCompletionIdx = - 1,
                   CompletionStrings = [''abc'', ''ab''],
                   CompletionInsertableStrings = [''abc'', ''ab'']\<rparr>
       = Inl OutOfBoundsRead"
  using ex_abc_populate by (simp add: getNextStem_def getRoot_def Let_def)


lemma getRoot_reset:
  "getRoot (reset this) =
     (case getRoot this of Inl e \<Rightarrow> Inl e | Inr (r, this') \<Rightarrow> Inr (r, reset this'))"
  by (simp add: getRoot_def reset_def split: option.splits sum.splits)

lemma getPreviousStem_reset:
  "getPreviousStem (reset this) =
     (case getPreviousStem this of Inl e \<Rightarrow> Inl e | Inr (s, this') \<Rightarrow> Inr (s, reset this'))"
  by (simp add: getPreviousStem_def getRoot_def reset_def split: option.splits sum.splits)

lemma getNextStem_reset:
  "getNextStem (reset this) =
     (case getNextStem this of Inl e \<Rightarrow> Inl e | Inr (s, this') \<Rightarrow> Inr (s, reset this'))"
  by (simp add: getNextStem_def getRoot_def reset_def Let_def split: option.splits sum.splits)


text \<open>
  Claim C9, on the same session. \<^verbatim>\<open>reset\<close> changes the state and nothing else (lemma
  \<open>reset_frame\<close>), so the candidates \<open>abc\<close> and \<open>ab\<close> are still there and the cache is
  still unset; the claim says that every accessor called next returns, and
  \<^verbatim>\<open>getRoot\<close> and \<^verbatim>\<open>getNextStem\<close> read \<open>ab\<close> past its end. An accessor does after
  \<^verbatim>\<open>reset\<close> what it does without it (lemmas \<open>getRoot_reset\<close>,
  \<open>getPreviousStem_reset\<close>, \<open>getNextStem_reset\<close>).
\<close>

theorem accessor_after_reset_out_of_bounds:
  "populate ex_abc (REPLCompletions_new 0) ex_tu ''x.'' =
     Some (Inr (\<lparr>State = CompletedRoot, Prefix = [], Root = None,
                  CurrentCompletionIdx = - 1,
                  CompletionStrings = [''abc'', ''ab''],
                  CompletionInsertableStrings = [''abc'', ''ab'']\<rparr>,
                \<lparr>Kind = REPL, Decls = [DeclPtr 1], DiagConsumers = [5],
                  HadAnyError = False,
                  SourceBuffers = [''x.'' @ [CHR 0x00] @ '' #'']\<rparr>))
   \<and> reset \<lparr>State = CompletedRoot, Prefix = [], Root = None,
             CurrentCompletionIdx = - 1,
             CompletionStrings = [''abc'', ''ab''],
             CompletionInsertableStrings = [''abc'', ''ab'']\<rparr>
       = \<lparr>State = Invalid, Prefix = [], Root = None,
           CurrentCompletionIdx = - 1,
           CompletionStrings = [''abc'', ''ab''],
           CompletionInsertableStrings = [''abc'', ''ab'']\<rparr>
   \<and> getRoot (reset \<lparr>State = CompletedRoot, Prefix = [], Root = None,
             CurrentCompletionIdx = - 1,
             CompletionStrings = [''abc'', ''ab''],
             CompletionInsertableStrings = [''abc'', ''ab'']\<rparr>) = Inl OutOfBoundsRead
   \<and> getNextStem (reset \<lparr>State = CompletedRoot, Prefix = [], Root = None,
             CurrentCompletionIdx = - 1,
             CompletionStrings = [''abc'', ''ab''],
             CompletionInsertableStrings = [''abc'', ''ab'']\<rparr>) = Inl OutOfBoundsRead"
  using ex_abc_populate by (simp add: reset_def getNextStem_def getRoot_def Let_def)


end
